theory Spec2Isabelle
  imports Main
begin

section \<open>tetrisrun: constants and data\<close>

text \<open>
  The program is \<^verbatim>\<open>tetrisrun/tetrisrun.go\<close>. A \<^verbatim>\<open>time.Duration\<close> is a signed 64-bit count
  of nanoseconds; it is modelled as an \<open>int\<close>. The only arithmetic the program does on a
  duration is the subtraction in the gravity loop, whose operands stay between 0 and
  \<open>10^9\<close> (lemma \<open>dropRate_range\<close>), far from the 64-bit bounds.
\<close>

type_synonym duration = int

definition Microsecond :: duration where
  "Microsecond = 1000"

definition Millisecond :: duration where
  "Millisecond = 1000 * Microsecond"

definition escTimeout :: duration where
  "escTimeout = 100 * Millisecond"

definition initialDropRate :: duration where
  "initialDropRate = 1000 * Millisecond"

definition finalDropRate :: duration where
  "finalDropRate = 400 * Microsecond"

definition dropRateDelta :: duration where
  "dropRateDelta = 1 * Millisecond"

text \<open>
  Go error values, as far as the program tells them apart: \<^verbatim>\<open>io.EOF\<close>, a
  \<^verbatim>\<open>syscall.Errno\<close>, an \<^verbatim>\<open>*os.PathError\<close> wrapping another error (its field
  \<^verbatim>\<open>Err\<close>), and any other error, kept by its message.
\<close>

datatype goerror = EOF | Errno nat | PathError goerror | ErrorString string

definition EPIPE :: nat where
  "EPIPE = 32"

text \<open>
  What a goroutine does to the outside: a byte written to standard output, an error
  printed to standard error, a value sent on the channel \<^verbatim>\<open>done\<close>, a value sent on the
  channel \<^verbatim>\<open>pause\<close>.
\<close>

datatype effect = Stdout char | Stderr goerror | SendDone | SendPause bool

definition ESC :: char where
  "ESC = CHR 0x1B"

section \<open>writeByte\<close>

text \<open>
  \<^verbatim>\<open>writeByte\<close> (lines 94-105). The first argument is what \<^verbatim>\<open>os.Stdout.Write\<close> returns for
  the one-byte slice: \<open>None\<close> for a nil error, \<open>Some err\<close> otherwise. The error is printed
  unless it is a \<^verbatim>\<open>*os.PathError\<close> whose \<^verbatim>\<open>Err\<close> is \<^verbatim>\<open>syscall.EPIPE\<close>.
\<close>

definition logged :: "goerror \<Rightarrow> bool" where
  "logged err = (case err of PathError e \<Rightarrow> e \<noteq> Errno EPIPE | _ \<Rightarrow> True)"

definition writeByte :: "goerror option \<Rightarrow> char \<Rightarrow> effect list \<times> bool" where
  "writeByte w b =
     (case w of
        None \<Rightarrow> ([Stdout b], True)
      | Some err \<Rightarrow> ((if logged err then [Stderr err] else []) @ [SendDone], False))"

section \<open>readKey\<close>

text \<open>
  Standard input is a finite list of bytes, each with the time that passes between the
  moment a read asks for it and the moment it is there, and an ending: either every
  later read returns an error (\<^verbatim>\<open>io.EOF\<close> for a closed stream), or no byte ever arrives
  and the read blocks for good.
\<close>

type_synonym input = "(duration \<times> char) list"

datatype ending = Closed goerror | Silent

text \<open>
  \<^verbatim>\<open>readKey\<close> calls \<^verbatim>\<open>stdin.ReadByte\<close> at four places: at the top of its loop (line 112),
  in the pause loop (line 130), in the goroutine that races the escape timer (line 146)
  and after the bracket of an escape sequence (line 155).
\<close>

datatype site = ReadKey | PauseLoop | ReadBracket | ReadArrow

text \<open>
  What \<^verbatim>\<open>readKey\<close> does with the byte it has read: return a key, return an error, read
  again at some place, or send on \<^verbatim>\<open>pause\<close> and then read at some place.
\<close>

datatype move = Return char | Fail goerror | Read site | Send bool site

text \<open>
  The first argument of \<open>onByte\<close> is only used when the byte after ESC is there at the
  very instant the timer fires: both cases of the \<^verbatim>\<open>select\<close> at line 149 are ready then and
  the Go runtime picks one of them; \<open>True\<close> stands for the \<^verbatim>\<open>readBracket\<close> case.
\<close>

fun onByte :: "bool \<Rightarrow> site \<Rightarrow> duration \<Rightarrow> char \<Rightarrow> move" where
  "onByte pick ReadKey d b =
     (if b = CHR ''i'' \<or> b = CHR ''w'' then Return (CHR ''i'')
      else if b = CHR ''j'' \<or> b = CHR ''a'' then Return (CHR ''j'')
      else if b = CHR ''k'' \<or> b = CHR ''s'' then Return (CHR ''k'')
      else if b = CHR ''l'' \<or> b = CHR ''d'' then Return (CHR ''l'')
      else if b = CHR ''q'' \<or> b = CHR 0x00 \<or> b = CHR 0x03 \<or> b = CHR 0x04 \<or> b = CHR 0x1A
        then Fail EOF
      else if b = CHR ''p'' \<or> b = CHR '' '' then Send True PauseLoop
      else if b = CHR 0x1B then Read ReadBracket
      else Read ReadKey)"
| "onByte pick PauseLoop d b =
     (if b = CHR ''p'' \<or> b = CHR '' '' then Send False ReadKey else Read PauseLoop)"
| "onByte pick ReadBracket d b =
     (if d < escTimeout \<or> (d = escTimeout \<and> pick)
      then (if b = CHR ''['' then Read ReadArrow else Fail EOF)
      else Fail EOF)"
| "onByte pick ReadArrow d b =
     (if b = CHR ''A'' then Return (CHR ''i'')
      else if b = CHR ''B'' then Return (CHR ''k'')
      else if b = CHR ''C'' then Return (CHR ''l'')
      else if b = CHR ''D'' then Return (CHR ''j'')
      else Read ReadKey)"

text \<open>
  How a call of \<^verbatim>\<open>readKey\<close> ends: with a key and a nil error, with an error, or never
  (blocked in a read no byte comes for).
\<close>

datatype outcome = Key char | Failed goerror | Blocked

text \<open>
  A read when the input is used up. At lines 112, 130 and 155 the error of the read is
  returned as it is. At line 146 the goroutine reports \<open>false\<close> on an error and the timer
  fires when nothing comes: \<^verbatim>\<open>readKey\<close> returns \<^verbatim>\<open>io.EOF\<close> in both cases.
\<close>

fun onEnd :: "site \<Rightarrow> ending \<Rightarrow> outcome" where
  "onEnd ReadBracket e = Failed EOF"
| "onEnd s (Closed err) = Failed err"
| "onEnd s Silent = Blocked"

text \<open>
  \<open>readKeyAt pick e s bs\<close> runs \<^verbatim>\<open>readKey\<close> from the read at place \<open>s\<close> on the input \<open>bs\<close>
  with ending \<open>e\<close>. It gives the outcome, the values sent on \<^verbatim>\<open>pause\<close> on the way, and the
  input left unread. \<open>pick n\<close> is the choice of the runtime at a tie of the escape race
  when \<open>n\<close> bytes are still unread.
\<close>

fun readKeyAt ::
  "(nat \<Rightarrow> bool) \<Rightarrow> ending \<Rightarrow> site \<Rightarrow> input \<Rightarrow> outcome \<times> effect list \<times> input" where
  "readKeyAt pick e s [] = (onEnd s e, [], [])"
| "readKeyAt pick e s ((d, b) # bs) =
     (case onByte (pick (length bs)) s d b of
        Return k \<Rightarrow> (Key k, [], bs)
      | Fail err \<Rightarrow> (Failed err, [], bs)
      | Read s' \<Rightarrow> readKeyAt pick e s' bs
      | Send v s' \<Rightarrow>
          (case readKeyAt pick e s' bs of (r, es, bs') \<Rightarrow> (r, SendPause v # es, bs')))"

definition readKey :: "(nat \<Rightarrow> bool) \<Rightarrow> ending \<Rightarrow> input \<Rightarrow> outcome \<times> effect list \<times> input" where
  "readKey pick e bs = readKeyAt pick e ReadKey bs"

section \<open>The forwarder loop\<close>




section \<open>The two loops together\<close>

text \<open>
  Where the forwarder goroutine (lines 53-73) stands: at its \<^verbatim>\<open>select\<close>; inside \<^verbatim>\<open>readKey\<close>
  at one of the reads; inside \<^verbatim>\<open>readKey\<close> blocked in a send on \<^verbatim>\<open>pause\<close>, with the place it
  reads at next; before \<^verbatim>\<open>writeByte(key)\<close> at line 66; before \<^verbatim>\<open>writeByte('\x1b')\<close> at line
  62; blocked in a send on \<^verbatim>\<open>done\<close>, with where it stands once the send is taken; returned.
\<close>

datatype fwd =
    Select
  | Reading site
  | Pausing bool site
  | Writing char
  | Quitting
  | Signalling fwd
  | Returned

text \<open>
  Where the gravity loop (lines 76-91) stands: at its \<^verbatim>\<open>select\<close>; at the receive of line
  87; blocked in the send on \<^verbatim>\<open>done\<close> of \<^verbatim>\<open>writeByte\<close>, which line 81 follows; out of the
  loop, where \<^verbatim>\<open>main\<close> returns.
\<close>

datatype grav = Ticking | Paused | Failing | Stopped

text \<open>
  The state of the program. \<open>delivered\<close> is not in the source: it records that a value
  sent on \<^verbatim>\<open>done\<close> has been received.
\<close>

record system =
  forwarding :: fwd
  gravity :: grav
  dropRate :: duration
  stdin :: input
  stdout :: "char list"
  stderr :: "goerror list"
  delivered :: bool

definition start :: "input \<Rightarrow> system" where
  "start bs = \<lparr>forwarding = Select, gravity = Ticking, dropRate = initialDropRate,
     stdin = bs, stdout = [], stderr = [], delivered = False\<rparr>"

text \<open>
  The steps of the program. Both channels are unbuffered, so a send and its receive are
  one step of the two goroutines.
  \<^item> \<open>ASelect\<close>: the forwarder runs its \<^verbatim>\<open>select\<close> (line 55). It receives from \<^verbatim>\<open>done\<close> and
    returns when the gravity loop is blocked sending there, and goes into \<^verbatim>\<open>readKey\<close>
    otherwise.
  \<^item> \<open>ARead pick\<close>: the read the forwarder stands at returns, or the escape timer fires.
  \<^item> \<open>AWrite w\<close>: the forwarder calls \<^verbatim>\<open>writeByte\<close> and \<^verbatim>\<open>os.Stdout.Write\<close> returns \<open>w\<close>.
  \<^item> \<open>Tick w\<close>: the timer of the gravity loop fires (line 79); \<^verbatim>\<open>writeByte('k')\<close> is called
    and \<^verbatim>\<open>os.Stdout.Write\<close> returns \<open>w\<close>.
  \<^item> \<open>SyncPause\<close>: the forwarder sends on \<^verbatim>\<open>pause\<close> and the gravity loop receives
    (line 86 or line 87).
  \<^item> \<open>SyncDone\<close>: the forwarder sends on \<^verbatim>\<open>done\<close> and the gravity loop receives (line 88).
\<close>

datatype event = ASelect | ARead bool | AWrite "goerror option" | Tick "goerror option"
  | SyncPause | SyncDone

text \<open>The writes of a list of effects, on the two output streams.\<close>

fun writes :: "effect list \<Rightarrow> system \<Rightarrow> system" where
  "writes [] s = s"
| "writes (Stdout b # es) s = writes es (s\<lparr>stdout := stdout s @ [b]\<rparr>)"
| "writes (Stderr err # es) s = writes es (s\<lparr>stderr := stderr s @ [err]\<rparr>)"
| "writes (x # es) s = writes es s"

text \<open>Lines 58-62: \<^verbatim>\<open>readKey\<close> has returned the error \<open>err\<close>.\<close>

definition failed :: "goerror \<Rightarrow> system \<Rightarrow> system" where
  "failed err s = (writes (if err \<noteq> EOF then [Stderr err] else []) s)\<lparr>forwarding := Quitting\<rparr>"

fun step :: "ending \<Rightarrow> event \<Rightarrow> system \<Rightarrow> system option" where
  "step e ASelect s =
     (case forwarding s of
        Select \<Rightarrow>
          (if gravity s = Failing
           then Some (s\<lparr>forwarding := Returned, gravity := Stopped, delivered := True\<rparr>)
           else Some (s\<lparr>forwarding := Reading ReadKey\<rparr>))
      | _ \<Rightarrow> None)"
| "step e (ARead pick) s =
     (case forwarding s of
        Reading r \<Rightarrow>
          (case stdin s of
             [] \<Rightarrow>
               (case onEnd r e of
                  Failed err \<Rightarrow> Some (failed err s)
                | _ \<Rightarrow> None)
           | (d, b) # bs \<Rightarrow>
               (case onByte pick r d b of
                  Return key \<Rightarrow> Some (s\<lparr>stdin := bs, forwarding := Writing key\<rparr>)
                | Fail err \<Rightarrow> Some (failed err (s\<lparr>stdin := bs\<rparr>))
                | Read r' \<Rightarrow> Some (s\<lparr>stdin := bs, forwarding := Reading r'\<rparr>)
                | Send v r' \<Rightarrow> Some (s\<lparr>stdin := bs, forwarding := Pausing v r'\<rparr>)))
      | _ \<Rightarrow> None)"
| "step e (AWrite w) s =
     (case forwarding s of
        Writing key \<Rightarrow>
          (case writeByte w key of
             (ws, ok) \<Rightarrow>
               Some ((writes ws s)\<lparr>forwarding := (if ok then Select else Signalling Returned)\<rparr>))
      | Quitting \<Rightarrow>
          (case writeByte w ESC of
             (ws, ok) \<Rightarrow>
               Some ((writes ws s)\<lparr>forwarding :=
                 (if ok then Signalling Returned else Signalling (Signalling Returned))\<rparr>))
      | _ \<Rightarrow> None)"
| "step e (Tick w) s =
     (case gravity s of
        Ticking \<Rightarrow>
          (case writeByte w (CHR ''k'') of
             (ws, ok) \<Rightarrow>
               (if \<not> ok then Some ((writes ws s)\<lparr>gravity := Failing\<rparr>)
                else if dropRate s > finalDropRate
                  then Some ((writes ws s)\<lparr>dropRate := dropRate s - dropRateDelta\<rparr>)
                else Some (writes ws s)))
      | _ \<Rightarrow> None)"
| "step e SyncPause s =
     (case forwarding s of
        Pausing v r \<Rightarrow>
          (case gravity s of
             Ticking \<Rightarrow> Some (s\<lparr>forwarding := Reading r, gravity := Paused\<rparr>)
           | Paused \<Rightarrow> Some (s\<lparr>forwarding := Reading r, gravity := Ticking\<rparr>)
           | _ \<Rightarrow> None)
      | _ \<Rightarrow> None)"
| "step e SyncDone s =
     (case forwarding s of
        Signalling cont \<Rightarrow>
          (case gravity s of
             Ticking \<Rightarrow> Some (s\<lparr>forwarding := cont, gravity := Stopped, delivered := True\<rparr>)
           | _ \<Rightarrow> None)
      | _ \<Rightarrow> None)"

text \<open>A run: the steps of a list of events, one after the other, if each can be taken.\<close>

fun run :: "ending \<Rightarrow> event list \<Rightarrow> system \<Rightarrow> system option" where
  "run e [] s = Some s"
| "run e (ev # evs) s = (case step e ev s of None \<Rightarrow> None | Some s' \<Rightarrow> run e evs s')"

section \<open>Properties of writeByte\<close>




section \<open>Properties of readKey\<close>

lemma pauseLoop_skip:
  "\<forall>x \<in> set mid. snd x \<noteq> CHR ''p'' \<and> snd x \<noteq> CHR '' '' \<Longrightarrow>
   readKeyAt pick e PauseLoop (mid @ rest) = readKeyAt pick e PauseLoop rest"
  by (induction mid) auto

lemma onByte_Return:
  "onByte p s d b = Return c \<Longrightarrow> c \<in> {CHR ''i'', CHR ''j'', CHR ''k'', CHR ''l''}"
  by (cases s) (auto split: if_splits)

lemma readKeyAt_key:
  "readKeyAt pick e s bs = (Key k, es, rest) \<Longrightarrow>
   k \<in> {CHR ''i'', CHR ''j'', CHR ''k'', CHR ''l''}"
proof (induction bs arbitrary: s es)
  case Nil
  then show ?case by (cases s; cases e) auto
next
  case (Cons x bs)
  obtain d b where x: "x = (d, b)" by (cases x)
  show ?case
  proof (cases "onByte (pick (length bs)) s d b")
    case (Return c)
    with Cons.prems x have "k = c" by simp
    with Return show ?thesis by (auto dest: onByte_Return)
  next
    case (Fail err)
    with Cons.prems x show ?thesis by simp
  next
    case (Read s')
    with Cons.prems x have "readKeyAt pick e s' bs = (Key k, es, rest)" by simp
    then show ?thesis by (rule Cons.IH)
  next
    case (Send v s')
    with Cons.prems x obtain es' where "readKeyAt pick e s' bs = (Key k, es', rest)"
      by (auto split: prod.splits)
    then show ?thesis by (rule Cons.IH)
  qed
qed

text \<open>
  C4. A first byte \<open>i\<close> or \<open>w\<close> makes \<^verbatim>\<open>readKey\<close> return \<open>i\<close>, \<open>j\<close> or \<open>a\<close> gives \<open>j\<close>,
  \<open>k\<close> or \<open>s\<close> gives \<open>k\<close>, \<open>l\<close> or \<open>d\<close> gives \<open>l\<close>. The key depends on that byte alone:
  not on its delay, on the bytes after it (which stay unread), on the ending of the input
  or on the choices of the runtime; nothing is sent on \<^verbatim>\<open>pause\<close>.
\<close>

theorem readKey_alias:
  "readKey pick e ((d, CHR ''i'') # bs) = (Key (CHR ''i''), [], bs) \<and>
   readKey pick e ((d, CHR ''w'') # bs) = (Key (CHR ''i''), [], bs) \<and>
   readKey pick e ((d, CHR ''j'') # bs) = (Key (CHR ''j''), [], bs) \<and>
   readKey pick e ((d, CHR ''a'') # bs) = (Key (CHR ''j''), [], bs) \<and>
   readKey pick e ((d, CHR ''k'') # bs) = (Key (CHR ''k''), [], bs) \<and>
   readKey pick e ((d, CHR ''s'') # bs) = (Key (CHR ''k''), [], bs) \<and>
   readKey pick e ((d, CHR ''l'') # bs) = (Key (CHR ''l''), [], bs) \<and>
   readKey pick e ((d, CHR ''d'') # bs) = (Key (CHR ''l''), [], bs)"
  by (simp add: readKey_def)

text \<open>
  C3. After ESC, when the next byte comes before the escape timeout and is \<open>[\<close>, the byte
  after it decides: \<open>A\<close> gives rotate (\<open>i\<close>), \<open>B\<close> gives drop (\<open>k\<close>), \<open>C\<close> gives right (\<open>l\<close>),
  \<open>D\<close> gives left (\<open>j\<close>). When the next byte comes only after the timeout, or no byte comes
  at all, \<^verbatim>\<open>readKey\<close> fails with \<^verbatim>\<open>io.EOF\<close>. The timeout is 100 ms.
\<close>

theorem readKey_arrow:
  "escTimeout = 100 * Millisecond \<and>
   (d1 < escTimeout \<longrightarrow>
      readKey pick e ((d0, ESC) # (d1, CHR ''['') # (d2, CHR ''A'') # bs) = (Key (CHR ''i''), [], bs) \<and>
      readKey pick e ((d0, ESC) # (d1, CHR ''['') # (d2, CHR ''B'') # bs) = (Key (CHR ''k''), [], bs) \<and>
      readKey pick e ((d0, ESC) # (d1, CHR ''['') # (d2, CHR ''C'') # bs) = (Key (CHR ''l''), [], bs) \<and>
      readKey pick e ((d0, ESC) # (d1, CHR ''['') # (d2, CHR ''D'') # bs) = (Key (CHR ''j''), [], bs)) \<and>
   (escTimeout < d1' \<longrightarrow> fst (readKey pick e ((d0, ESC) # (d1', b) # bs)) = Failed EOF) \<and>
   readKey pick e [(d0, ESC)] = (Failed EOF, [], [])"
  by (simp add: readKey_def ESC_def escTimeout_def)

theorem readKey_arrow_witness:
  "(5 * Millisecond < escTimeout \<and>
    readKey (\<lambda>n. False) Silent
      [(0, ESC), (5 * Millisecond, CHR ''[''), (0, CHR ''C''), (0, CHR ''q'')]
      = (Key (CHR ''l''), [], [(0, CHR ''q'')])) \<and>
   (escTimeout < 250 * Millisecond \<and>
    fst (readKey (\<lambda>n. True) Silent
      [(0, ESC), (250 * Millisecond, CHR ''[''), (0, CHR ''C''), (0, CHR ''q'')]) = Failed EOF)"
proof -
  have prompt: "5 * Millisecond < escTimeout"
    by (simp add: escTimeout_def Millisecond_def Microsecond_def)
  have late: "escTimeout < 250 * Millisecond"
    by (simp add: escTimeout_def Millisecond_def Microsecond_def)
  from prompt late
    readKey_arrow [of "5 * Millisecond" "\<lambda>n. False" Silent 0 0 "[(0, CHR ''q'')]"
      "250 * Millisecond" "CHR ''[''"]
    readKey_arrow [of "5 * Millisecond" "\<lambda>n. True" Silent 0 0 "[(0, CHR ''C''), (0, CHR ''q'')]"
      "250 * Millisecond" "CHR ''[''"]
  show ?thesis by blast
qed

text \<open>
  C9. After ESC, a next byte that comes before the escape timeout and is not \<open>[\<close> makes
  \<^verbatim>\<open>readKey\<close> fail with \<^verbatim>\<open>io.EOF\<close>: the byte is neither translated nor skipped. The same
  holds when the read after ESC returns an error, whatever the error.
\<close>

theorem readKey_esc_other:
  "(d1 < escTimeout \<and> b \<noteq> CHR ''['' \<longrightarrow>
      readKey pick e ((d0, ESC) # (d1, b) # bs) = (Failed EOF, [], bs)) \<and>
   readKey pick (Closed err) [(d0, ESC)] = (Failed EOF, [], [])"
  by (simp add: readKey_def ESC_def)

theorem readKey_esc_other_witness:
  "(0 < escTimeout \<and> CHR ''i'' \<noteq> CHR ''['') \<and>
   readKey (\<lambda>n. True) Silent [(0, ESC), (0, CHR ''i''), (0, CHR ''j'')]
     = (Failed EOF, [], [(0, CHR ''j'')])"
proof -
  have h: "0 < escTimeout \<and> CHR ''i'' \<noteq> CHR ''[''"
    by (simp add: escTimeout_def Millisecond_def Microsecond_def)
  from h readKey_esc_other [of 0 "CHR ''i''" "\<lambda>n. True" Silent 0 "[(0, CHR ''j'')]"]
  show ?thesis by blast
qed

text \<open>
  C10. A key that \<^verbatim>\<open>readKey\<close> returns is one of \<open>i\<close>, \<open>j\<close>, \<open>k\<close>, \<open>l\<close>. A first byte that
  is no alias, no quit byte, no pause byte and not ESC is read and dropped: \<^verbatim>\<open>readKey\<close>
  goes on with the bytes after it, with the same result as if the byte had not been there.
\<close>

theorem readKey_result_alphabet:
  "(readKey pick e bs = (Key k, es, rest) \<longrightarrow>
      k \<in> {CHR ''i'', CHR ''j'', CHR ''k'', CHR ''l''}) \<and>
   (b \<notin> {CHR ''i'', CHR ''w'', CHR ''j'', CHR ''a'', CHR ''k'', CHR ''s'', CHR ''l'', CHR ''d'',
          CHR ''q'', CHR 0x00, CHR 0x03, CHR 0x04, CHR 0x1A, CHR ''p'', CHR '' '', CHR 0x1B} \<longrightarrow>
      readKey pick e ((d, b) # bs) = readKey pick e bs)"
  by (auto simp: readKey_def dest: readKeyAt_key)

theorem readKey_result_alphabet_witness:
  "readKey (\<lambda>n. True) Silent [(0, CHR ''x''), (0, CHR ''7''), (0, CHR ''s''), (0, CHR ''x'')]
     = (Key (CHR ''k''), [], [(0, CHR ''x'')]) \<and>
   CHR ''k'' \<in> {CHR ''i'', CHR ''j'', CHR ''k'', CHR ''l''} \<and>
   readKey (\<lambda>n. True) Silent [(0, CHR ''x''), (0, CHR ''7''), (0, CHR ''s''), (0, CHR ''x'')]
     = readKey (\<lambda>n. True) Silent [(0, CHR ''7''), (0, CHR ''s''), (0, CHR ''x'')]"
proof -
  have r: "readKey (\<lambda>n. True) Silent [(0, CHR ''x''), (0, CHR ''7''), (0, CHR ''s''), (0, CHR ''x'')]
     = (Key (CHR ''k''), [], [(0, CHR ''x'')])"
    by (simp add: readKey_def)
  have x: "CHR ''x'' \<notin> {CHR ''i'', CHR ''w'', CHR ''j'', CHR ''a'', CHR ''k'', CHR ''s'', CHR ''l'',
          CHR ''d'', CHR ''q'', CHR 0x00, CHR 0x03, CHR 0x04, CHR 0x1A, CHR ''p'', CHR '' '', CHR 0x1B}"
    by simp
  note t = readKey_result_alphabet [of "\<lambda>n. True" Silent
      "[(0, CHR ''7''), (0, CHR ''s''), (0, CHR ''x'')]" "CHR ''k''" "[]"
      "[(0, CHR ''x'')]" "CHR ''x''" 0]
  have r': "readKey (\<lambda>n. True) Silent [(0, CHR ''7''), (0, CHR ''s''), (0, CHR ''x'')]
     = (Key (CHR ''k''), [], [(0, CHR ''x'')])"
    by (simp add: readKey_def)
  have k: "CHR ''k'' \<in> {CHR ''i'', CHR ''j'', CHR ''k'', CHR ''l''}"
    by (rule mp [OF conjunct1 [OF t] r'])
  have d: "readKey (\<lambda>n. True) Silent [(0, CHR ''x''), (0, CHR ''7''), (0, CHR ''s''), (0, CHR ''x'')]
     = readKey (\<lambda>n. True) Silent [(0, CHR ''7''), (0, CHR ''s''), (0, CHR ''x'')]"
    by (rule mp [OF conjunct2 [OF t] x])
  from r k d show ?thesis by (intro conjI)
qed

lemma readKey_pause_byte:
  "p = CHR ''p'' \<or> p = CHR '' '' \<Longrightarrow>
   readKeyAt pick e ReadKey ((d, p) # bs) =
     (case readKeyAt pick e PauseLoop bs of (r, es, rest) \<Rightarrow> (r, SendPause True # es, rest))"
  by (erule disjE) simp_all

lemma pauseLoop_pause_byte:
  "p = CHR ''p'' \<or> p = CHR '' '' \<Longrightarrow>
   readKeyAt pick e PauseLoop ((d, p) # bs) =
     (case readKeyAt pick e ReadKey bs of (r, es, rest) \<Rightarrow> (r, SendPause False # es, rest))"
  by (erule disjE) simp_all

text \<open>
  C6. On \<open>p\<close> or space, then bytes that are neither \<open>p\<close> nor space, then \<open>p\<close> or space:
  \<^verbatim>\<open>readKey\<close> sends \<open>true\<close> on \<^verbatim>\<open>pause\<close>, drops the bytes in between, sends \<open>false\<close> on
  \<^verbatim>\<open>pause\<close> and goes on as a fresh \<^verbatim>\<open>readKey\<close> on the rest of the input. When the input
  ends with a read error before the second pause byte, \<^verbatim>\<open>readKey\<close> returns that error.
\<close>

theorem readKey_pause:
  assumes "p1 = CHR ''p'' \<or> p1 = CHR '' ''"
    and "p2 = CHR ''p'' \<or> p2 = CHR '' ''"
    and "\<forall>x \<in> set mid. snd x \<noteq> CHR ''p'' \<and> snd x \<noteq> CHR '' ''"
  shows "readKey pick e ((d1, p1) # mid @ (d2, p2) # bs) =
           (case readKey pick e bs of
              (r, es, rest) \<Rightarrow> (r, SendPause True # SendPause False # es, rest)) \<and>
         readKey pick (Closed err) ((d1, p1) # mid) = (Failed err, [SendPause True], [])"
proof
  have "readKeyAt pick e PauseLoop (mid @ (d2, p2) # bs) = readKeyAt pick e PauseLoop ((d2, p2) # bs)"
    using assms(3) by (rule pauseLoop_skip)
  then show "readKey pick e ((d1, p1) # mid @ (d2, p2) # bs) =
           (case readKey pick e bs of
              (r, es, rest) \<Rightarrow> (r, SendPause True # SendPause False # es, rest))"
    unfolding readKey_def
    by (simp only: readKey_pause_byte [OF assms(1)] pauseLoop_pause_byte [OF assms(2)]
          split: prod.split) simp
next
  have "readKeyAt pick (Closed err) PauseLoop (mid @ []) = readKeyAt pick (Closed err) PauseLoop []"
    using assms(3) by (rule pauseLoop_skip)
  then show "readKey pick (Closed err) ((d1, p1) # mid) = (Failed err, [SendPause True], [])"
    unfolding readKey_def
    by (simp add: readKey_pause_byte [OF assms(1)] del: readKeyAt.simps(2))
qed

theorem readKey_pause_witness:
  "readKey (\<lambda>n. True) Silent
     ((0, CHR ''p'') # [(0, CHR ''q''), (0, ESC), (0, CHR ''i'')] @ (0, CHR '' '') # [(0, CHR ''a''), (0, CHR ''d'')])
     = (Key (CHR ''j''), [SendPause True, SendPause False], [(0, CHR ''d'')]) \<and>
   readKey (\<lambda>n. True) (Closed (ErrorString ''input/output error''))
     ((0, CHR ''p'') # [(0, CHR ''q''), (0, ESC), (0, CHR ''i'')])
     = (Failed (ErrorString ''input/output error''), [SendPause True], [])"
proof -
  have mid: "\<forall>x \<in> set [(0::int, CHR ''q''), (0, ESC), (0, CHR ''i'')]. snd x \<noteq> CHR ''p'' \<and> snd x \<noteq> CHR '' ''"
    by (simp add: ESC_def)
  have r: "readKey (\<lambda>n. True) Silent [(0, CHR ''a''), (0, CHR ''d'')] = (Key (CHR ''j''), [], [(0, CHR ''d'')])"
    by (simp add: readKey_def)
  from r readKey_pause [of "CHR ''p''" "CHR '' ''" "[(0, CHR ''q''), (0, ESC), (0, CHR ''i'')]"
      "\<lambda>n. True" Silent 0 0 "[(0, CHR ''a''), (0, CHR ''d'')]" "ErrorString ''input/output error''",
      OF _ _ mid]
  show ?thesis by simp
qed

section \<open>Properties of the forwarder loop\<close>






section \<open>Properties of the two loops together\<close>

lemma run_snoc:
  "run e (evs @ [ev]) s = (case run e evs s of None \<Rightarrow> None | Some s' \<Rightarrow> step e ev s')"
  by (induction evs arbitrary: s) (auto split: option.splits)

lemma writes_ok: "writes (fst (writeByte None b)) s = s\<lparr>stdout := stdout s @ [b]\<rparr>"
  by (simp add: writeByte_def)

lemma writes_fail:
  "writes (fst (writeByte (Some err) b)) s =
     s\<lparr>stderr := stderr s @ (if logged err then [err] else [])\<rparr>"
  by (simp add: writeByte_def)

text \<open>The ways a step can be taken, one for each branch of \<open>step\<close>.\<close>

lemma step_cases [consumes 1, case_names select_done select_default read_end read_return
    read_fail read_again read_pause write_ok write_fail quit_ok quit_fail tick_faster tick_same
    tick_fail pause_on pause_off shutdown]:
  assumes "step e ev s = Some s'"
  obtains
    "ev = ASelect" "forwarding s = Select" "gravity s = Failing"
      "s' = s\<lparr>forwarding := Returned, gravity := Stopped, delivered := True\<rparr>"
  | "ev = ASelect" "forwarding s = Select" "gravity s \<noteq> Failing"
      "s' = s\<lparr>forwarding := Reading ReadKey\<rparr>"
  | pick r err where "ev = ARead pick" "forwarding s = Reading r" "stdin s = []"
      "onEnd r e = Failed err" "s' = failed err s"
  | pick r d b bs key where "ev = ARead pick" "forwarding s = Reading r" "stdin s = (d, b) # bs"
      "onByte pick r d b = Return key" "s' = s\<lparr>stdin := bs, forwarding := Writing key\<rparr>"
  | pick r d b bs err where "ev = ARead pick" "forwarding s = Reading r" "stdin s = (d, b) # bs"
      "onByte pick r d b = Fail err" "s' = failed err (s\<lparr>stdin := bs\<rparr>)"
  | pick r d b bs r' where "ev = ARead pick" "forwarding s = Reading r" "stdin s = (d, b) # bs"
      "onByte pick r d b = Read r'" "s' = s\<lparr>stdin := bs, forwarding := Reading r'\<rparr>"
  | pick r d b bs v r' where "ev = ARead pick" "forwarding s = Reading r" "stdin s = (d, b) # bs"
      "onByte pick r d b = Send v r'" "s' = s\<lparr>stdin := bs, forwarding := Pausing v r'\<rparr>"
  | key where "ev = AWrite None" "forwarding s = Writing key"
      "s' = s\<lparr>stdout := stdout s @ [key], forwarding := Select\<rparr>"
  | key err where "ev = AWrite (Some err)" "forwarding s = Writing key"
      "s' = s\<lparr>stderr := stderr s @ (if logged err then [err] else []),
          forwarding := Signalling Returned\<rparr>"
  | "ev = AWrite None" "forwarding s = Quitting"
      "s' = s\<lparr>stdout := stdout s @ [ESC], forwarding := Signalling Returned\<rparr>"
  | err where "ev = AWrite (Some err)" "forwarding s = Quitting"
      "s' = s\<lparr>stderr := stderr s @ (if logged err then [err] else []),
          forwarding := Signalling (Signalling Returned)\<rparr>"
  | "ev = Tick None" "gravity s = Ticking" "dropRate s > finalDropRate"
      "s' = s\<lparr>stdout := stdout s @ [CHR ''k''], dropRate := dropRate s - dropRateDelta\<rparr>"
  | "ev = Tick None" "gravity s = Ticking" "\<not> dropRate s > finalDropRate"
      "s' = s\<lparr>stdout := stdout s @ [CHR ''k'']\<rparr>"
  | err where "ev = Tick (Some err)" "gravity s = Ticking"
      "s' = s\<lparr>stderr := stderr s @ (if logged err then [err] else []), gravity := Failing\<rparr>"
  | v r where "ev = SyncPause" "forwarding s = Pausing v r" "gravity s = Ticking"
      "s' = s\<lparr>forwarding := Reading r, gravity := Paused\<rparr>"
  | v r where "ev = SyncPause" "forwarding s = Pausing v r" "gravity s = Paused"
      "s' = s\<lparr>forwarding := Reading r, gravity := Ticking\<rparr>"
  | nx where "ev = SyncDone" "forwarding s = Signalling nx" "gravity s = Ticking"
      "s' = s\<lparr>forwarding := nx, gravity := Stopped, delivered := True\<rparr>"
proof (cases ev)
  case ASelect
  with assms that(1,2) show ?thesis
    by (cases "forwarding s") (auto split: if_splits)
next
  case (ARead pick)
  with assms obtain r where r: "forwarding s = Reading r"
    by (cases "forwarding s") auto
  show ?thesis
  proof (cases "stdin s")
    case Nil
    with assms ARead r that(3) show ?thesis
      by (cases "onEnd r e") auto
  next
    case (Cons x bs)
    obtain d b where "x = (d, b)" by (cases x)
    with assms ARead r Cons that(4,5,6,7) show ?thesis
      by (cases "onByte pick r d b") auto
  qed
next
  case (AWrite w)
  show ?thesis
  proof (cases w)
    case None
    with assms AWrite that(8,10) show ?thesis
      by (cases "forwarding s") (auto simp: writeByte_def)
  next
    case (Some err)
    with assms AWrite that(9,11) show ?thesis
      by (cases "forwarding s") (auto simp: writeByte_def)
  qed
next
  case (Tick w)
  with assms have g: "gravity s = Ticking"
    by (cases "gravity s") auto
  show ?thesis
  proof (cases w)
    case None
    with assms Tick g that(12,13) show ?thesis
      by (auto simp: writeByte_def split: if_splits)
  next
    case (Some err)
    with assms Tick g that(14) show ?thesis
      by (auto simp: writeByte_def)
  qed
next
  case SyncPause
  with assms that(15,16) show ?thesis
    by (cases "forwarding s"; cases "gravity s") auto
next
  case SyncDone
  with assms that(17) show ?thesis
    by (cases "forwarding s"; cases "gravity s") auto
qed

lemma failed_fields [simp]:
  "forwarding (failed err s) = Quitting"
  "gravity (failed err s) = gravity s"
  "dropRate (failed err s) = dropRate s"
  "stdin (failed err s) = stdin s"
  "stdout (failed err s) = stdout s"
  "delivered (failed err s) = delivered s"
  by (simp_all add: failed_def)

text \<open>
  What holds in every state the program reaches: standard output is made of the five
  command bytes; a key about to be written is one of \<open>i\<close>, \<open>j\<close>, \<open>k\<close>, \<open>l\<close>; after a send
  on \<^verbatim>\<open>done\<close> the forwarder returns or sends once more; a value sent on \<^verbatim>\<open>done\<close> has been
  received exactly when the gravity loop has stopped, and the forwarder has returned or
  stands in its last send then.
\<close>

definition invariant :: "system \<Rightarrow> bool" where
  "invariant s \<longleftrightarrow>
     set (stdout s) \<subseteq> {CHR ''i'', CHR ''j'', CHR ''k'', CHR ''l'', ESC} \<and>
     (\<forall>key. forwarding s = Writing key \<longrightarrow> key \<in> {CHR ''i'', CHR ''j'', CHR ''k'', CHR ''l''}) \<and>
     (\<forall>nx. forwarding s = Signalling nx \<longrightarrow> nx = Returned \<or> nx = Signalling Returned) \<and>
     (delivered s \<longrightarrow>
        gravity s = Stopped \<and> (forwarding s = Returned \<or> forwarding s = Signalling Returned)) \<and>
     (gravity s = Stopped \<longrightarrow> delivered s)"

text \<open>
  The drop rate stays between 0 and its first value, a whole number of steps of
  \<^verbatim>\<open>dropRateDelta\<close>: the subtraction of line 84 never leaves the range of a 64-bit integer.
\<close>

definition rate_inv :: "system \<Rightarrow> bool" where
  "rate_inv s \<longleftrightarrow>
     0 \<le> dropRate s \<and> dropRate s \<le> initialDropRate \<and> dropRateDelta dvd dropRate s"

lemma invariant_step:
  assumes "step e ev s = Some s'" and "invariant s"
  shows "invariant s'"
  using assms
  by (cases rule: step_cases) (auto simp: invariant_def dest: onByte_Return)

lemma rate_step_arith:
  fixes r :: int
  assumes "0 \<le> r" "r \<le> 1000000000" "1000000 dvd r" "400000 < r"
  shows "0 \<le> r - 1000000 \<and> r - 1000000 \<le> 1000000000 \<and> 1000000 dvd (r - 1000000)"
proof -
  from assms(3) obtain q where q: "r = 1000000 * q" by (auto simp: dvd_def)
  with assms(4) have "1 \<le> q" by (cases "q \<le> 0") auto
  with q assms(2) show ?thesis by simp
qed

lemma rate_inv_step:
  assumes "step e ev s = Some s'" and "rate_inv s"
  shows "rate_inv s'"
  using assms
proof (cases rule: step_cases)
  case tick_faster
  with assms(2) rate_step_arith [of "dropRate s"] show ?thesis
    by (simp add: rate_inv_def initialDropRate_def dropRateDelta_def finalDropRate_def
      Millisecond_def Microsecond_def)
qed (simp_all add: rate_inv_def)

lemma reachable_induct:
  assumes "run e evs (start bs) = Some s"
    and "P (start bs)"
    and "\<And>ev s s'. step e ev s = Some s' \<Longrightarrow> P s \<Longrightarrow> P s'"
  shows "P s"
  using assms(1)
proof (induction evs arbitrary: s rule: rev_induct)
  case Nil
  with assms(2) show ?case by simp
next
  case (snoc ev evs)
  then obtain s0 where "run e evs (start bs) = Some s0" and "step e ev s0 = Some s"
    by (auto simp: run_snoc split: option.splits)
  with snoc.IH assms(3) show ?case by blast
qed

lemma reachable_invariant:
  assumes "run e evs (start bs) = Some s"
  shows "invariant s"
  using assms
proof (rule reachable_induct)
  show "invariant (start bs)"
    by (simp add: invariant_def start_def)
qed (rule invariant_step)

lemma dropRate_range:
  assumes "run e evs (start bs) = Some s"
  shows "rate_inv s"
  using assms
proof (rule reachable_induct)
  show "rate_inv (start bs)"
    by (simp add: rate_inv_def start_def initialDropRate_def dropRateDelta_def
      Millisecond_def Microsecond_def)
qed (rule rate_inv_step)

lemma run_append:
  "run e (xs @ ys) s = (case run e xs s of None \<Rightarrow> None | Some s' \<Rightarrow> run e ys s')"
  by (induction xs arbitrary: s) (auto split: option.splits)

text \<open>
  The input \<open>w j s d q\<close> in the two loops together, when the timer does not fire before
  the forwarder is through and every write succeeds: standard output is \<open>i j k l\<close> and
  ESC, and both loops have stopped.
\<close>

lemma system_wjsdq:
  "run e
     [ASelect, ARead p1, AWrite None, ASelect, ARead p2, AWrite None,
      ASelect, ARead p3, AWrite None, ASelect, ARead p4, AWrite None,
      ASelect, ARead p5, AWrite None, SyncDone]
     (start [(0, CHR ''w''), (0, CHR ''j''), (0, CHR ''s''), (0, CHR ''d''), (0, CHR ''q'')]) =
     Some \<lparr>forwarding = Returned, gravity = Stopped, dropRate = initialDropRate,
       stdin = [], stdout = [CHR ''i'', CHR ''j'', CHR ''k'', CHR ''l'', ESC], stderr = [],
       delivered = True\<rparr>"
  by (simp add: start_def writeByte_def failed_def)

text \<open>
  C8. In every run of the program from its start, every byte on standard output is one
  of \<open>i\<close>, \<open>j\<close>, \<open>k\<close>, \<open>l\<close> and ESC.
\<close>

theorem stdout_alphabet:
  "run e evs (start bs) = Some s \<Longrightarrow>
   set (stdout s) \<subseteq> {CHR ''i'', CHR ''j'', CHR ''k'', CHR ''l'', ESC}"
  by (drule reachable_invariant) (simp add: invariant_def)

theorem stdout_alphabet_witness:
  "run (Closed EOF) [ASelect, ARead False, AWrite None, Tick None, ASelect, ARead False, AWrite None]
     (start [(0, CHR ''w'')]) =
     Some \<lparr>forwarding = Signalling Returned, gravity = Ticking,
       dropRate = initialDropRate - dropRateDelta, stdin = [],
       stdout = [CHR ''i'', CHR ''k'', ESC], stderr = [], delivered = False\<rparr> \<and>
   set [CHR ''i'', CHR ''k'', ESC] \<subseteq> {CHR ''i'', CHR ''j'', CHR ''k'', CHR ''l'', ESC}"
proof -
  have r: "run (Closed EOF)
     [ASelect, ARead False, AWrite None, Tick None, ASelect, ARead False, AWrite None]
     (start [(0, CHR ''w'')]) =
     Some \<lparr>forwarding = Signalling Returned, gravity = Ticking,
       dropRate = initialDropRate - dropRateDelta, stdin = [],
       stdout = [CHR ''i'', CHR ''k'', ESC], stderr = [], delivered = False\<rparr>"
    by (simp add: step.simps start_def writeByte_def failed_def initialDropRate_def
        finalDropRate_def Millisecond_def Microsecond_def)
  from r stdout_alphabet [OF r] show ?thesis by simp
qed

subsection \<open>The drop rate\<close>

lemma tick_ok:
  "gravity s = Ticking \<Longrightarrow>
   step e (Tick None) s =
     Some (if dropRate s > finalDropRate
           then s\<lparr>stdout := stdout s @ [CHR ''k''], dropRate := dropRate s - dropRateDelta\<rparr>
           else s\<lparr>stdout := stdout s @ [CHR ''k'']\<rparr>)"
  by (simp add: writeByte_def)

declare step.simps [simp del]

lemma run_ticks_from:
  "gravity s = Ticking \<Longrightarrow> dropRate s = int m * dropRateDelta \<Longrightarrow> n \<le> m \<Longrightarrow>
   run e (replicate n (Tick None)) s =
     Some (s\<lparr>stdout := stdout s @ replicate n (CHR ''k''),
        dropRate := dropRate s - int n * dropRateDelta\<rparr>)"
proof (induction n arbitrary: s m)
  case 0
  show ?case by simp
next
  case (Suc n)
  from Suc.prems obtain m' where m: "m = Suc m'" by (cases m) auto
  with Suc.prems have "finalDropRate < dropRate s"
    by (simp add: finalDropRate_def dropRateDelta_def Millisecond_def Microsecond_def)
  with Suc.prems have st: "step e (Tick None) s =
      Some (s\<lparr>stdout := stdout s @ [CHR ''k''], dropRate := dropRate s - dropRateDelta\<rparr>)"
    by (simp add: tick_ok)
  let ?s = "s\<lparr>stdout := stdout s @ [CHR ''k''], dropRate := dropRate s - dropRateDelta\<rparr>"
  have "run e (replicate n (Tick None)) ?s =
     Some (?s\<lparr>stdout := stdout ?s @ replicate n (CHR ''k''),
        dropRate := dropRate ?s - int n * dropRateDelta\<rparr>)"
    using Suc.prems m by (intro Suc.IH [of ?s m']) (simp_all add: algebra_simps)
  with st show ?case by (simp add: algebra_simps)
qed

lemma run_ticks:
  "n \<le> 1000 \<Longrightarrow>
   run e (replicate n (Tick None)) (start bs) =
     Some ((start bs)\<lparr>stdout := replicate n (CHR ''k''),
        dropRate := initialDropRate - int n * dropRateDelta\<rparr>)"
  using run_ticks_from [of "start bs" 1000 n e]
  by (simp add: start_def initialDropRate_def dropRateDelta_def Millisecond_def)

lemma run_ticks_floor:
  "gravity s = Ticking \<Longrightarrow> dropRate s \<le> finalDropRate \<Longrightarrow>
   run e (replicate n (Tick None)) s = Some (s\<lparr>stdout := stdout s @ replicate n (CHR ''k'')\<rparr>)"
proof (induction n arbitrary: s)
  case 0
  show ?case by simp
next
  case (Suc n)
  let ?s = "s\<lparr>stdout := stdout s @ [CHR ''k'']\<rparr>"
  from Suc.prems have st: "step e (Tick None) s = Some ?s"
    by (simp add: tick_ok)
  have "run e (replicate n (Tick None)) ?s = Some (?s\<lparr>stdout := stdout ?s @ replicate n (CHR ''k'')\<rparr>)"
    using Suc.prems by (intro Suc.IH) simp_all
  with st show ?case by simp
qed

lemma dropRate_after_ticks:
  "map_option dropRate (run e (replicate n (Tick None)) (start bs)) =
     Some (max (initialDropRate - int n * dropRateDelta) 0)"
proof (cases "n \<le> 1000")
  case True
  then show ?thesis
    by (simp add: run_ticks initialDropRate_def dropRateDelta_def Millisecond_def Microsecond_def)
next
  case False
  then have n: "replicate n (Tick None) = replicate 1000 (Tick None) @ replicate (n - 1000) (Tick None)"
    by (simp add: replicate_add [symmetric])
  have "run e (replicate 1000 (Tick None)) (start bs) =
     Some ((start bs)\<lparr>stdout := replicate 1000 (CHR ''k''),
        dropRate := initialDropRate - int 1000 * dropRateDelta\<rparr>)"
    by (rule run_ticks) simp
  with False show ?thesis
    by (simp only: n run_append)
      (simp add: run_ticks_floor start_def initialDropRate_def dropRateDelta_def
        finalDropRate_def Millisecond_def Microsecond_def)
qed

text \<open>
  C1. The claim has the drop interval held at 0.4 ms: \<open>max(1000 - N, 0.4)\<close> ms after \<open>N\<close>
  ticks. After 999 ticks the interval is 1 ms, which is above \<^verbatim>\<open>finalDropRate\<close>, so the
  1000th tick subtracts 1 ms again: after 1000 successful ticks the interval is 0, below
  \<^verbatim>\<open>finalDropRate\<close>. Lemma \<open>dropRate_after_ticks\<close> gives the interval after any number of
  ticks: \<open>max(1000 - N, 0)\<close> ms.
\<close>

theorem dropRate_after_1000_ticks:
  "map_option dropRate (run e (replicate 1000 (Tick None)) (start bs)) = Some 0 \<and>
   0 < finalDropRate"
  by (simp add: dropRate_after_ticks initialDropRate_def dropRateDelta_def finalDropRate_def
      Millisecond_def Microsecond_def)

subsection \<open>Shutdown\<close>

lemma paused_signalling_stuck:
  "forwarding s = Signalling nx \<Longrightarrow> gravity s = Paused \<Longrightarrow> step e ev s = None"
  by (cases ev) (simp_all add: step.simps)

lemma delivered_stuck:
  assumes "invariant s" and "delivered s"
  shows "step e ev s = None"
proof -
  from assms have "gravity s = Stopped"
    and "forwarding s = Returned \<or> forwarding s = Signalling Returned"
    by (simp_all add: invariant_def)
  then show ?thesis by (cases ev) (auto simp: step.simps)
qed

text \<open>
  C2, as stated, fails, in two ways.

  A byte is written after a shutdown signal has been raised. With the forwarder inside
  \<^verbatim>\<open>readKey\<close>, a write of the gravity loop fails (here with errno 28, no space left on the
  device) and the gravity loop stands in its send on \<^verbatim>\<open>done\<close> (line 101). The forwarder looks at \<^verbatim>\<open>done\<close> only at its \<^verbatim>\<open>select\<close>: it reads the
  key \<open>i\<close> and writes it before it comes back there.

  A shutdown signal raised while the gravity loop is paused is not received. On the
  input \<open>p\<close> followed by the end of the stream, the forwarder pauses the gravity loop,
  \<^verbatim>\<open>readKey\<close> fails in its pause loop, the forwarder writes ESC and reaches its send on
  \<^verbatim>\<open>done\<close> (line 63), while the gravity loop stands at the receive from \<^verbatim>\<open>pause\<close> of line 87.
  The gravity loop does not stop: the run cannot be continued by any of the steps tried
  below (lemma \<open>paused_signalling_stuck\<close> has it for every step).
\<close>

theorem shutdown_counterexample:
  "run (Closed EOF) [ASelect, Tick (Some (PathError (Errno 28)))] (start [(0, CHR ''i'')]) =
     Some \<lparr>forwarding = Reading ReadKey, gravity = Failing, dropRate = initialDropRate,
       stdin = [(0, CHR ''i'')], stdout = [], stderr = [PathError (Errno 28)],
       delivered = False\<rparr> \<and>
   run (Closed EOF) [ASelect, Tick (Some (PathError (Errno 28))), ARead False, AWrite None]
     (start [(0, CHR ''i'')]) =
     Some \<lparr>forwarding = Select, gravity = Failing, dropRate = initialDropRate,
       stdin = [], stdout = [CHR ''i''], stderr = [PathError (Errno 28)],
       delivered = False\<rparr> \<and>
   run (Closed EOF) [ASelect, ARead False, SyncPause, ARead False, AWrite None]
     (start [(0, CHR ''p'')]) =
     Some \<lparr>forwarding = Signalling Returned, gravity = Paused, dropRate = initialDropRate,
       stdin = [], stdout = [ESC], stderr = [], delivered = False\<rparr> \<and>
   run (Closed EOF) [ASelect, ARead False, SyncPause, ARead False, AWrite None, SyncDone]
     (start [(0, CHR ''p'')]) = None \<and>
   run (Closed EOF) [ASelect, ARead False, SyncPause, ARead False, AWrite None, SyncPause]
     (start [(0, CHR ''p'')]) = None \<and>
   run (Closed EOF) [ASelect, ARead False, SyncPause, ARead False, AWrite None, Tick None]
     (start [(0, CHR ''p'')]) = None \<and>
   run (Closed EOF) [ASelect, ARead False, SyncPause, ARead False, AWrite None, ASelect]
     (start [(0, CHR ''p'')]) = None \<and>
   run (Closed EOF) [ASelect, ARead False, SyncPause, ARead False, AWrite None, ARead False]
     (start [(0, CHR ''p'')]) = None \<and>
   run (Closed EOF) [ASelect, ARead False, SyncPause, ARead False, AWrite None, AWrite None]
     (start [(0, CHR ''p'')]) = None"
  by (simp add: step.simps start_def writeByte_def failed_def logged_def EPIPE_def)

text \<open>
  C2, amended. In every state the program can reach: once a value sent on \<^verbatim>\<open>done\<close> has
  been received, the gravity loop has stopped, the forwarder has returned or stands at
  the second send of its quit branch, and no further step is taken, so no further byte is
  written. A signal the forwarder sends while the gravity loop is at its \<^verbatim>\<open>select\<close> can be
  received, and the gravity loop stops on receiving it. A signal the gravity loop sends
  is received when the forwarder is at its \<^verbatim>\<open>select\<close>: the forwarder returns and the
  gravity loop stops.
\<close>

theorem shutdown_received:
  assumes "run e evs (start bs) = Some s"
  shows "(delivered s \<longrightarrow>
            gravity s = Stopped \<and>
            (forwarding s = Returned \<or> forwarding s = Signalling Returned) \<and>
            step e ev s = None) \<and>
         (gravity s = Ticking \<and> forwarding s = Signalling cont \<longrightarrow>
            step e SyncDone s =
              Some (s\<lparr>forwarding := cont, gravity := Stopped, delivered := True\<rparr>)) \<and>
         (gravity s = Failing \<and> forwarding s = Select \<longrightarrow>
            step e ASelect s =
              Some (s\<lparr>forwarding := Returned, gravity := Stopped, delivered := True\<rparr>))"
proof (intro conjI impI)
  assume d: "delivered s"
  from assms have i: "invariant s" by (rule reachable_invariant)
  from i d show "gravity s = Stopped" by (simp add: invariant_def)
  from i d show "forwarding s = Returned \<or> forwarding s = Signalling Returned"
    by (simp add: invariant_def)
  from i d show "step e ev s = None" by (rule delivered_stuck)
next
  assume "gravity s = Ticking \<and> forwarding s = Signalling cont"
  then show "step e SyncDone s =
      Some (s\<lparr>forwarding := cont, gravity := Stopped, delivered := True\<rparr>)"
    by (simp add: step.simps)
next
  assume "gravity s = Failing \<and> forwarding s = Select"
  then show "step e ASelect s =
      Some (s\<lparr>forwarding := Returned, gravity := Stopped, delivered := True\<rparr>)"
    by (simp add: step.simps)
qed

theorem shutdown_received_witness:
  "run (Closed EOF) [ASelect, ARead False, AWrite None, SyncDone] (start [(0, CHR ''q'')]) =
     Some \<lparr>forwarding = Returned, gravity = Stopped, dropRate = initialDropRate,
       stdin = [], stdout = [ESC], stderr = [], delivered = True\<rparr> \<and>
   step (Closed EOF) (Tick None)
     \<lparr>forwarding = Returned, gravity = Stopped, dropRate = initialDropRate,
       stdin = [], stdout = [ESC], stderr = [], delivered = True\<rparr> = None \<and>
   run (Closed EOF) [ASelect, ARead False, AWrite None] (start [(0, CHR ''q'')]) =
     Some \<lparr>forwarding = Signalling Returned, gravity = Ticking, dropRate = initialDropRate,
       stdin = [], stdout = [ESC], stderr = [], delivered = False\<rparr> \<and>
   step (Closed EOF) SyncDone
     \<lparr>forwarding = Signalling Returned, gravity = Ticking, dropRate = initialDropRate,
       stdin = [], stdout = [ESC], stderr = [], delivered = False\<rparr> =
     Some \<lparr>forwarding = Returned, gravity = Stopped, dropRate = initialDropRate,
       stdin = [], stdout = [ESC], stderr = [], delivered = True\<rparr> \<and>
   run (Closed EOF) [Tick (Some (PathError (Errno EPIPE)))] (start []) =
     Some \<lparr>forwarding = Select, gravity = Failing, dropRate = initialDropRate,
       stdin = [], stdout = [], stderr = [], delivered = False\<rparr> \<and>
   step (Closed EOF) ASelect
     \<lparr>forwarding = Select, gravity = Failing, dropRate = initialDropRate,
       stdin = [], stdout = [], stderr = [], delivered = False\<rparr> =
     Some \<lparr>forwarding = Returned, gravity = Stopped, dropRate = initialDropRate,
       stdin = [], stdout = [], stderr = [], delivered = True\<rparr>"
proof -
  let ?a = "\<lparr>forwarding = Returned, gravity = Stopped, dropRate = initialDropRate,
       stdin = [], stdout = [ESC], stderr = [], delivered = True\<rparr>"
  let ?b = "\<lparr>forwarding = Signalling Returned, gravity = Ticking, dropRate = initialDropRate,
       stdin = [], stdout = [ESC], stderr = [], delivered = False\<rparr>"
  let ?c = "\<lparr>forwarding = Select, gravity = Failing, dropRate = initialDropRate,
       stdin = [], stdout = [], stderr = [], delivered = False\<rparr>"
  have a: "run (Closed EOF) [ASelect, ARead False, AWrite None, SyncDone] (start [(0, CHR ''q'')])
      = Some ?a"
    by (simp add: step.simps start_def writeByte_def failed_def)
  have b: "run (Closed EOF) [ASelect, ARead False, AWrite None] (start [(0, CHR ''q'')]) = Some ?b"
    by (simp add: step.simps start_def writeByte_def failed_def)
  have c: "run (Closed EOF) [Tick (Some (PathError (Errno EPIPE)))] (start []) = Some ?c"
    by (simp add: step.simps start_def writeByte_def logged_def)
  from shutdown_received [OF a, of "Tick None" Returned]
  have 1: "step (Closed EOF) (Tick None) ?a = None" by simp
  from shutdown_received [OF b, of "Tick None" Returned]
  have 2: "step (Closed EOF) SyncDone ?b = Some ?a" by simp
  from shutdown_received [OF c, of "Tick None" Returned]
  have 3: "step (Closed EOF) ASelect ?c =
      Some \<lparr>forwarding = Returned, gravity = Stopped, dropRate = initialDropRate,
       stdin = [], stdout = [], stderr = [], delivered = True\<rparr>" by simp
  from a b c 1 2 3 show ?thesis by (intro conjI)
qed

end
